theory Spec2Isabelle
  imports Main "HOL-Library.Sublist"
begin

section \<open>The IR seen by LocalOpts.cpp\<close>

text \<open>
  The pass works on LLVM values. An integer constant (\<open>ConstantInt\<close>) holds an
  \<open>APInt\<close>: a bit width and the unsigned value of its bits, \<open>0 \<le> VAL < 2 ^ BitWidth\<close>.
  LLVM has constants that are not integer constants (undef, a global's address, a
  constant expression): the source tests \<open>isa<Constant>\<close> in some places and
  \<open>isa<ConstantInt>\<close> in others, so both kinds are kept apart. An instruction is named
  by a number (its address in the C++ program).
\<close>

datatype APInt = APInt (BitWidth: nat) (VAL: int)

datatype val =
    ConstantInt APInt
  | OtherConstant nat
  | InstRef nat
  | Argument nat

text \<open>The opcodes the pass names, and \<open>OtherBinary\<close> for every other binary opcode.\<close>

datatype opcode = Add | Sub | Mul | SDiv | Shl | AShr | OtherBinary nat

text \<open>
  A binary operator has exactly two operands; every other instruction (ret, call,
  store, ...) is kept with its operand list, which \<open>replaceAllUsesWith\<close> rewrites too.
\<close>

datatype instr =
    BinaryOperator opcode val val
  | OtherInst nat "val list"

datatype error =
    NullDereference
  | ShiftOutOfRange
  | ReplaceWithSelf
  | BitWidthMismatch
  | InvalidReference

type_synonym entry = "nat \<times> instr"
type_synonym block = "entry list"
type_synonym func = "block list"
type_synonym module = "func list"

datatype PreservedAnalyses = PA_none | PA_all

subsection \<open>Values and instructions\<close>

fun isa_ConstantInt :: "val \<Rightarrow> bool" where
  "isa_ConstantInt (ConstantInt c) = True"
| "isa_ConstantInt v = False"

fun isa_Constant :: "val \<Rightarrow> bool" where
  "isa_Constant (ConstantInt c) = True"
| "isa_Constant (OtherConstant k) = True"
| "isa_Constant v = False"

text \<open>\<open>dyn_cast<ConstantInt>(v)\<close>: the null pointer is \<open>None\<close>.\<close>

fun dyn_cast_ConstantInt :: "val \<Rightarrow> APInt option" where
  "dyn_cast_ConstantInt (ConstantInt c) = Some c"
| "dyn_cast_ConstantInt v = None"

fun isBinaryOp :: "instr \<Rightarrow> bool" where
  "isBinaryOp (BinaryOperator opc a b) = True"
| "isBinaryOp (OtherInst k ops) = False"

fun operands :: "instr \<Rightarrow> val list" where
  "operands (BinaryOperator opc a b) = [a, b]"
| "operands (OtherInst k ops) = ops"

subsection \<open>The APInt operations the pass calls\<close>

text \<open>\<open>APInt == uint64_t\<close>, \<open>APInt != uint64_t\<close> and \<open>ugt(uint64_t)\<close> compare the
  unsigned value.\<close>

definition eq_u64 :: "APInt \<Rightarrow> int \<Rightarrow> bool" where
  "eq_u64 a n = (VAL a = n)"

definition ugt :: "APInt \<Rightarrow> int \<Rightarrow> bool" where
  "ugt a n = (n < VAL a)"

text \<open>\<open>APInt == APInt\<close> asserts that both sides have the same bit width.\<close>

definition eq_APInt :: "APInt \<Rightarrow> APInt \<Rightarrow> error + bool" where
  "eq_APInt a b =
     (if BitWidth a = BitWidth b then Inr (VAL a = VAL b) else Inl BitWidthMismatch)"

definition isNegative :: "APInt \<Rightarrow> bool" where
  "isNegative a = (0 < BitWidth a \<and> 2 ^ (BitWidth a - 1) \<le> VAL a)"

text \<open>\<open>abs\<close>: the two's complement negation of a value whose sign bit is set.\<close>

definition abs_APInt :: "APInt \<Rightarrow> APInt" where
  "abs_APInt a =
     (if isNegative a
      then APInt (BitWidth a) ((2 ^ BitWidth a - VAL a) mod 2 ^ BitWidth a)
      else a)"

text \<open>\<open>APInt - uint64_t\<close>: subtraction modulo \<open>2 ^ BitWidth\<close>.\<close>

definition sub_u64 :: "APInt \<Rightarrow> int \<Rightarrow> APInt" where
  "sub_u64 a r = APInt (BitWidth a) ((VAL a - r) mod 2 ^ BitWidth a)"

function logBase2 :: "int \<Rightarrow> nat" where
  "logBase2 n = (if n < 2 then 0 else Suc (logBase2 (n div 2)))"
  by pat_completeness auto
termination
  by (relation "measure nat") auto

declare logBase2.simps [simp del]

definition UINT32_MAX :: int where
  "UINT32_MAX = 4294967295"

text \<open>
  \<open>APInt::nearestLogBase2\<close> (LLVM's library): on the unsigned value \<open>x\<close> it is
  \<open>logBase2(x) + x[logBase2(x) - 1]\<close>, so ties round up; it is \<open>UINT32_MAX\<close> for zero,
  and for a one-bit value it is \<open>VAL - 1\<close> truncated to 32 bits. Below bit 0 there is
  no bit: the nearest logarithm of 1 is 0.
\<close>

definition nearestLogBase2 :: "APInt \<Rightarrow> int" where
  "nearestLogBase2 a =
     (if BitWidth a = 1 then (if VAL a = 1 then 0 else UINT32_MAX)
      else if VAL a = 0 then UINT32_MAX
      else let lg = logBase2 (VAL a) in
        int lg + (if 0 < lg \<and> odd (VAL a div 2 ^ (lg - 1)) then 1 else 0))"

text \<open>\<open>int NearestLog = ...\<close>: the conversion of a 32-bit unsigned to \<open>int\<close>.\<close>

definition to_int :: "int \<Rightarrow> int" where
  "to_int k = (if k < 2147483648 then k else k - 4294967296)"

text \<open>
  \<open>1 << NearestLog\<close> on a 32-bit \<open>int\<close>: undefined for a negative count and for a count
  of 32 or more; a count of 31 gives the bit pattern of \<open>INT_MIN\<close>.
\<close>

definition shl_one :: "int \<Rightarrow> error + int" where
  "shl_one k =
     (if k < 0 \<or> 32 \<le> k then Inl ShiftOutOfRange
      else if k = 31 then Inr (- 2147483648)
      else Inr (2 ^ nat k))"

text \<open>The conversion of an \<open>int\<close> to \<open>uint64_t\<close>, the type of the right operand of
  \<open>APInt - uint64_t\<close>.\<close>

definition to_u64 :: "int \<Rightarrow> int" where
  "to_u64 i = i mod 18446744073709551616"

subsection \<open>Operand Classifier\<close>

text \<open>Called on binary operators only: every caller tests \<open>isBinaryOp\<close> first.\<close>

fun checkOperands :: "instr \<Rightarrow> bool" where
  "checkOperands (BinaryOperator opc a b) =
     (if \<not> isa_ConstantInt a \<and> \<not> isa_ConstantInt b then False
      else if isa_ConstantInt a \<and> isa_ConstantInt b then False
      else True)"
| "checkOperands (OtherInst k ops) = False"

subsection \<open>The function body and LLVM's mutation primitives\<close>

text \<open>
  A function is the list of its blocks, a block the list of its instructions in order,
  each with its name. An instruction reference (\<open>Instruction &Instr\<close>) is a place: the
  index of the block and the position in it. Use lists are not stored: the users of an
  instruction are found from the operands, in the order of the function's layout.
\<close>

definition ids :: "func \<Rightarrow> nat list" where
  "ids f = map fst (concat f)"

definition instrAt :: "func \<Rightarrow> nat \<Rightarrow> nat \<Rightarrow> entry option" where
  "instrAt f b pos =
     (if b < length f \<and> pos < length (f ! b) then Some (f ! b ! pos) else None)"

definition lookup :: "func \<Rightarrow> nat \<Rightarrow> instr option" where
  "lookup f n = map_of (concat f) n"

definition subst_val :: "nat \<Rightarrow> val \<Rightarrow> val \<Rightarrow> val" where
  "subst_val old new v = (if v = InstRef old then new else v)"

fun subst_instr :: "nat \<Rightarrow> val \<Rightarrow> instr \<Rightarrow> instr" where
  "subst_instr old new (BinaryOperator opc a b) =
     BinaryOperator opc (subst_val old new a) (subst_val old new b)"
| "subst_instr old new (OtherInst k ops) = OtherInst k (map (subst_val old new) ops)"

definition subst_entry :: "nat \<Rightarrow> val \<Rightarrow> entry \<Rightarrow> entry" where
  "subst_entry old new e = (fst e, subst_instr old new (snd e))"

text \<open>
  \<open>Value::replaceAllUsesWith\<close>: every operand that is the old instruction becomes the new
  value, in every instruction of the function. LLVM refuses to replace a value with
  itself. Values carry no types here, so LLVM's check that both have one type (and the
  like check of \<open>BinaryOperator::Create\<close>) has no counterpart.
\<close>

definition replaceAllUsesWith :: "func \<Rightarrow> nat \<Rightarrow> val \<Rightarrow> error + func" where
  "replaceAllUsesWith f old new =
     (if new = InstRef old then Inl ReplaceWithSelf
      else Inr (map (map (subst_entry old new)) f))"

text \<open>\<open>New->insertAfter(&Instr)\<close>: the new instruction goes right behind the place.\<close>

definition insertAfter :: "func \<Rightarrow> nat \<Rightarrow> nat \<Rightarrow> entry \<Rightarrow> func" where
  "insertAfter f b pos e = f[b := take (Suc pos) (f ! b) @ e # drop (Suc pos) (f ! b)]"

text \<open>\<open>Instr->eraseFromParent()\<close> unlinks and deletes the instruction; calling it on
  an instruction that was deleted already is a use after free.\<close>

definition eraseFromParent :: "func \<Rightarrow> nat \<Rightarrow> error + func" where
  "eraseFromParent f n =
     (if n \<in> set (ids f) then Inr (map (filter (\<lambda>e. fst e \<noteq> n)) f)
      else Inl InvalidReference)"

text \<open>The name of a newly created instruction: one that the function does not use.\<close>

definition fresh :: "func \<Rightarrow> nat" where
  "fresh f = Suc (fold max (ids f) 0)"

text \<open>The users of an instruction, one entry for each operand that refers to it.\<close>

definition users :: "func \<Rightarrow> nat \<Rightarrow> nat list" where
  "users f n =
     concat (map (\<lambda>e. map (\<lambda>v. fst e) (filter (\<lambda>v. v = InstRef n) (operands (snd e))))
       (concat f))"

subsection \<open>Algebraic Identity\<close>

text \<open>The case split on the instruction is the test \<open>Instr.isBinaryOp()\<close>; \<open>op0\<close> and
  \<open>op1\<close> are \<open>Instr.getOperand(0)\<close> and \<open>Instr.getOperand(1)\<close>.\<close>

definition algebraicIdentity :: "func \<Rightarrow> nat \<Rightarrow> nat \<Rightarrow> error + (bool \<times> func)" where
  "algebraicIdentity f b pos =
     (case instrAt f b pos of
        None \<Rightarrow> Inl InvalidReference
      | Some (n, OtherInst k ops) \<Rightarrow> Inr (False, f)
      | Some (n, BinaryOperator opc op0 op1) \<Rightarrow>
          if \<not> checkOperands (BinaryOperator opc op0 op1) then Inr (False, f)
          else
            let isFirstOperandConst = isa_Constant op0 in
            (case dyn_cast_ConstantInt (if isFirstOperandConst then op0 else op1) of
               None \<Rightarrow> Inl NullDereference
             | Some ConstValue \<Rightarrow>
                 if (opc = Add \<and> eq_u64 ConstValue 0) \<or>
                    (opc = Sub \<and> eq_u64 ConstValue 0) \<or>
                    (opc = Mul \<and> eq_u64 ConstValue 1) \<or>
                    (opc = SDiv \<and> eq_u64 ConstValue 1)
                 then
                   (case replaceAllUsesWith f n (if isFirstOperandConst then op1 else op0) of
                      Inl e \<Rightarrow> Inl e
                    | Inr f' \<Rightarrow> Inr (True, f'))
                 else Inr (False, f)))"

subsection \<open>Strength Reduction\<close>

definition strengthReduction :: "func \<Rightarrow> nat \<Rightarrow> nat \<Rightarrow> error + (bool \<times> func)" where
  "strengthReduction f b pos =
     (case instrAt f b pos of
        None \<Rightarrow> Inl InvalidReference
      | Some (n, OtherInst k ops) \<Rightarrow> Inr (False, f)
      | Some (n, BinaryOperator opc op0 op1) \<Rightarrow>
          if \<not> checkOperands (BinaryOperator opc op0 op1) then Inr (False, f)
          else
            let isMul = (opc = Mul) in
            if \<not> isMul \<and> opc \<noteq> SDiv then Inr (False, f)
            else
              (case dyn_cast_ConstantInt (if isa_ConstantInt op0 then op0 else op1) of
                 None \<Rightarrow> Inl NullDereference
               | Some ConstVal \<Rightarrow>
                   let NearestLog = to_int (nearestLogBase2 ConstVal) in
                   (case shl_one NearestLog of
                      Inl e \<Rightarrow> Inl e
                    | Inr p \<Rightarrow>
                        let Rest = sub_u64 ConstVal (to_u64 p) in
                        if ugt (abs_APInt Rest) 1 then Inr (False, f)
                        else if \<not> isMul \<and> \<not> eq_u64 Rest 0 then Inr (False, f)
                        else
                          let ConstLog = ConstantInt (APInt 32 (to_u64 NearestLog mod 2 ^ 32));
                              v = (if isa_ConstantInt op0 then op1 else op0);
                              ShiftInst = BinaryOperator (if isMul then Shl else AShr) v ConstLog;
                              s = fresh f
                          in
                            if isMul \<and> \<not> eq_u64 Rest 0 then
                              let RestInst =
                                    BinaryOperator (if ugt Rest 0 then Add else Sub) (InstRef s) v;
                                  f1 = insertAfter f b pos (s, ShiftInst);
                                  r = fresh f1;
                                  f2 = insertAfter f1 b (Suc pos) (r, RestInst)
                              in (case replaceAllUsesWith f2 n (InstRef r) of
                                    Inl e \<Rightarrow> Inl e
                                  | Inr f3 \<Rightarrow> Inr (True, f3))
                            else
                              let f1 = insertAfter f b pos (s, ShiftInst)
                              in (case replaceAllUsesWith f1 n (InstRef s) of
                                    Inl e \<Rightarrow> Inl e
                                  | Inr f2 \<Rightarrow> Inr (True, f2)))))"

subsection \<open>Cross-Instruction Cancellation\<close>

definition opposite :: "opcode \<Rightarrow> opcode \<Rightarrow> bool" where
  "opposite opc jopc =
     ((opc = Add \<and> jopc = Sub) \<or> (opc = Sub \<and> jopc = Add) \<or>
      (opc = Mul \<and> jopc = SDiv) \<or> (opc = SDiv \<and> jopc = Mul))"

text \<open>
  The loop over the uses of \<open>Instr\<close>, the instruction at the place \<open>(b, pos)\<close>. A new use
  is linked at the head of a use list, behind the iterator, so the loop ranges over the
  users found when it starts. The user and \<open>Instr\<close> are read from the current state.
\<close>

fun uses_loop ::
  "func \<Rightarrow> nat \<Rightarrow> nat \<Rightarrow> APInt \<Rightarrow> nat list \<Rightarrow> nat list \<Rightarrow> error + (func \<times> nat list)" where
  "uses_loop f b pos InitConstant [] toRemove = Inr (f, toRemove)"
| "uses_loop f b pos InitConstant (j # js) toRemove =
     (case lookup f j of
        None \<Rightarrow> Inl InvalidReference
      | Some (OtherInst k ops) \<Rightarrow> uses_loop f b pos InitConstant js toRemove
      | Some (BinaryOperator jopc j0 j1) \<Rightarrow>
          if \<not> checkOperands (BinaryOperator jopc j0 j1)
          then uses_loop f b pos InitConstant js toRemove
          else
            (case instrAt f b pos of
               None \<Rightarrow> Inl InvalidReference
             | Some (n, OtherInst k ops) \<Rightarrow> Inl InvalidReference
             | Some (n, BinaryOperator opc op0 op1) \<Rightarrow>
                 if opposite opc jopc then
                   (case dyn_cast_ConstantInt (if isa_Constant op0 then j0 else j1) of
                      None \<Rightarrow> Inl NullDereference
                    | Some IterConstant \<Rightarrow>
                        (case eq_APInt InitConstant IterConstant of
                           Inl e \<Rightarrow> Inl e
                         | Inr False \<Rightarrow> uses_loop f b pos InitConstant js toRemove
                         | Inr True \<Rightarrow>
                             (case replaceAllUsesWith f j (if isa_Constant op0 then op1 else op0) of
                                Inl e \<Rightarrow> Inl e
                              | Inr f' \<Rightarrow>
                                  uses_loop f' b pos InitConstant js (toRemove @ [j]))))
                 else uses_loop f b pos InitConstant js toRemove))"

definition multiInstructionOptimization ::
  "func \<Rightarrow> nat \<Rightarrow> nat \<Rightarrow> nat list \<Rightarrow> error + (func \<times> nat list)" where
  "multiInstructionOptimization f b pos toRemove =
     (case instrAt f b pos of
        None \<Rightarrow> Inl InvalidReference
      | Some (n, OtherInst k ops) \<Rightarrow> Inr (f, toRemove)
      | Some (n, BinaryOperator opc op0 op1) \<Rightarrow>
          if \<not> checkOperands (BinaryOperator opc op0 op1) then Inr (f, toRemove)
          else
            (case dyn_cast_ConstantInt (if isa_Constant op0 then op0 else op1) of
               None \<Rightarrow> Inl NullDereference
             | Some InitConstant \<Rightarrow> uses_loop f b pos InitConstant (users f n) toRemove))"

subsection \<open>Block Rewriter\<close>

text \<open>The body of the loop of \<open>runOnBasicBlock\<close>, at the instruction \<open>(b, pos)\<close>: the
  second rule runs only when the first did not match (\<open>||\<close>), the third always.\<close>

definition scanStep :: "func \<Rightarrow> nat \<Rightarrow> nat \<Rightarrow> nat list \<Rightarrow> error + (func \<times> nat list)" where
  "scanStep f b pos toRemove =
     (case instrAt f b pos of
        None \<Rightarrow> Inl InvalidReference
      | Some (n, Instr) \<Rightarrow>
          (case algebraicIdentity f b pos of
             Inl e \<Rightarrow> Inl e
           | Inr (True, f1) \<Rightarrow> multiInstructionOptimization f1 b pos (toRemove @ [n])
           | Inr (False, f1) \<Rightarrow>
               (case strengthReduction f1 b pos of
                  Inl e \<Rightarrow> Inl e
                | Inr (True, f2) \<Rightarrow> multiInstructionOptimization f2 b pos (toRemove @ [n])
                | Inr (False, f2) \<Rightarrow> multiInstructionOptimization f2 b pos toRemove)))"

text \<open>
  The loop \<open>for (Instruction &Instr : B)\<close>: the iterator goes on to the instruction that
  follows in the block as it is then, so it visits the instructions that strength
  reduction has inserted behind the current one.
\<close>

function scanBlock :: "func \<Rightarrow> nat \<Rightarrow> nat \<Rightarrow> nat list \<Rightarrow> error + (func \<times> nat list)" where
  "scanBlock f b pos toRemove =
     (if b < length f \<and> pos < length (f ! b) then
        (case scanStep f b pos toRemove of
           Inl e \<Rightarrow> Inl e
         | Inr (f', toRemove') \<Rightarrow> scanBlock f' b (Suc pos) toRemove')
      else Inr (f, toRemove))"
  by pat_completeness auto

text \<open>The second loop: \<open>eraseFromParent\<close> on every entry of the removal list.\<close>

fun eraseAll :: "func \<Rightarrow> nat list \<Rightarrow> error + func" where
  "eraseAll f [] = Inr f"
| "eraseAll f (n # ns) =
     (case eraseFromParent f n of Inl e \<Rightarrow> Inl e | Inr f' \<Rightarrow> eraseAll f' ns)"

definition runOnBasicBlock :: "func \<Rightarrow> nat \<Rightarrow> error + (bool \<times> func)" where
  "runOnBasicBlock f b =
     (case scanBlock f b 0 [] of
        Inl e \<Rightarrow> Inl e
      | Inr (f1, toRemove) \<Rightarrow>
          (case eraseAll f1 toRemove of
             Inl e \<Rightarrow> Inl e
           | Inr f2 \<Rightarrow> Inr (True, f2)))"

subsection \<open>Driver\<close>

fun blocks_loop :: "func \<Rightarrow> nat list \<Rightarrow> bool \<Rightarrow> error + (bool \<times> func)" where
  "blocks_loop f [] Transformed = Inr (Transformed, f)"
| "blocks_loop f (b # bs) Transformed =
     (case runOnBasicBlock f b of
        Inl e \<Rightarrow> Inl e
      | Inr (r, f') \<Rightarrow> blocks_loop f' bs (if r then True else Transformed))"

definition runOnFunction :: "func \<Rightarrow> error + (bool \<times> func)" where
  "runOnFunction f = blocks_loop f [0..<length f] False"

text \<open>\<open>LocalOpts::run\<close> returns from inside its loop over the functions.\<close>

fun LocalOpts_run :: "module \<Rightarrow> error + (PreservedAnalyses \<times> module)" where
  "LocalOpts_run [] = Inr (PA_all, [])"
| "LocalOpts_run (F # Fs) =
     (case runOnFunction F of
        Inl e \<Rightarrow> Inl e
      | Inr (True, F') \<Rightarrow> Inr (PA_none, F' # Fs)
      | Inr (False, F') \<Rightarrow>
          (case LocalOpts_run Fs of
             Inl e \<Rightarrow> Inl e
           | Inr (pa, Fs') \<Rightarrow> Inr (pa, F' # Fs')))"

section \<open>Termination of the forward scan\<close>

text \<open>
  Strength reduction lengthens the block that is being scanned. It fires on Mul and SDiv
  only and inserts at most two instructions that are neither, so the instructions still
  to visit, Mul and SDiv counted three times, decrease at every step.
\<close>

fun weight :: "entry \<Rightarrow> nat" where
  "weight (n, BinaryOperator opc a b) = (if opc = Mul \<or> opc = SDiv then 3 else 1)"
| "weight (n, OtherInst k ops) = 1"

definition todo :: "func \<Rightarrow> nat \<Rightarrow> nat \<Rightarrow> nat" where
  "todo f b pos = sum_list (map weight (drop pos (f ! b)))"

lemma weight_subst [simp]: "weight (subst_entry old new e) = weight e"
  by (cases e; cases "snd e") (auto simp: subst_entry_def)

lemma weight_pos: "0 < weight e"
  by (cases e; cases "snd e") auto

lemma replaceAllUsesWith_length:
  "replaceAllUsesWith f old new = Inr f' \<Longrightarrow> length f' = length f"
  by (auto simp: replaceAllUsesWith_def split: if_splits)

lemma replaceAllUsesWith_nth:
  "replaceAllUsesWith f old new = Inr f' \<Longrightarrow> b < length f \<Longrightarrow>
   f' ! b = map (subst_entry old new) (f ! b)"
  by (auto simp: replaceAllUsesWith_def split: if_splits)

lemma replaceAllUsesWith_todo:
  "replaceAllUsesWith f old new = Inr f' \<Longrightarrow> b < length f \<Longrightarrow> todo f' b pos = todo f b pos"
  by (simp add: todo_def replaceAllUsesWith_nth drop_map comp_def)

lemma algebraicIdentity_False: "algebraicIdentity f b pos = Inr (False, f') \<Longrightarrow> f' = f"
  by (auto simp: algebraicIdentity_def Let_def
      split: option.splits instr.splits if_splits sum.splits prod.splits)

lemma algebraicIdentity_True:
  "algebraicIdentity f b pos = Inr (True, f') \<Longrightarrow>
   \<exists>n opc op0 op1. instrAt f b pos = Some (n, BinaryOperator opc op0 op1) \<and>
     checkOperands (BinaryOperator opc op0 op1) \<and>
     replaceAllUsesWith f n (if isa_Constant op0 then op1 else op0) = Inr f'"
  by (auto simp: algebraicIdentity_def Let_def
      split: option.splits instr.splits if_splits sum.splits prod.splits)

lemma strengthReduction_False: "strengthReduction f b pos = Inr (False, f') \<Longrightarrow> f' = f"
  by (auto simp: strengthReduction_def Let_def
      split: option.splits instr.splits if_splits sum.splits prod.splits)

lemma strengthReduction_TrueE:
  assumes sr: "strengthReduction f b pos = Inr (True, f')"
  obtains n opc op0 op1 sop c rop where
    "instrAt f b pos = Some (n, BinaryOperator opc op0 op1)"
    "checkOperands (BinaryOperator opc op0 op1)"
    "opc = Mul \<or> opc = SDiv"
    "sop = Shl \<or> sop = AShr"
    "rop = Add \<or> rop = Sub"
    "replaceAllUsesWith
       (insertAfter f b pos
         (fresh f, BinaryOperator sop (if isa_ConstantInt op0 then op1 else op0) (ConstantInt c)))
       n (InstRef (fresh f)) = Inr f' \<or>
     replaceAllUsesWith
       (insertAfter
         (insertAfter f b pos
           (fresh f, BinaryOperator sop (if isa_ConstantInt op0 then op1 else op0) (ConstantInt c)))
         b (Suc pos)
         (fresh (insertAfter f b pos
            (fresh f, BinaryOperator sop (if isa_ConstantInt op0 then op1 else op0) (ConstantInt c))),
          BinaryOperator rop (InstRef (fresh f)) (if isa_ConstantInt op0 then op1 else op0)))
       n (InstRef (fresh (insertAfter f b pos
            (fresh f, BinaryOperator sop (if isa_ConstantInt op0 then op1 else op0) (ConstantInt c)))))
       = Inr f'"
proof -
  from sr obtain n opc op0 op1 where
    at: "instrAt f b pos = Some (n, BinaryOperator opc op0 op1)"
    by (auto simp: strengthReduction_def split: option.splits instr.splits prod.splits)
  from sr at have chk: "checkOperands (BinaryOperator opc op0 op1)"
    by (auto simp: strengthReduction_def split: if_splits)
  from sr at chk have opc: "opc = Mul \<or> opc = SDiv"
    by (auto simp: strengthReduction_def Let_def split: if_splits)
  from sr at chk opc obtain cv where
    cv: "dyn_cast_ConstantInt (if isa_ConstantInt op0 then op0 else op1) = Some cv"
    by (cases "dyn_cast_ConstantInt (if isa_ConstantInt op0 then op0 else op1)")
       (auto simp: strengthReduction_def Let_def split: if_splits)
  from sr at chk opc cv obtain p where
    p: "shl_one (to_int (nearestLogBase2 cv)) = Inr p"
    by (cases "shl_one (to_int (nearestLogBase2 cv))")
       (auto simp: strengthReduction_def Let_def split: if_splits)
  define sop where "sop = (if opc = Mul then Shl else AShr)"
  define rop where "rop = (if ugt (sub_u64 cv (to_u64 p)) 0 then Add else Sub)"
  define c where "c = APInt 32 (to_u64 (to_int (nearestLogBase2 cv)) mod 2 ^ 32)"
  have s: "sop = Shl \<or> sop = AShr" and r: "rop = Add \<or> rop = Sub"
    by (simp_all add: sop_def rop_def)
  from sr at chk opc cv p show thesis
    by (intro that [of n opc op0 op1 sop rop c] at chk opc s r)
       (auto simp: strengthReduction_def Let_def sop_def rop_def c_def
          split: if_splits sum.splits)
qed

lemma todo_Suc:
  "b < length f \<Longrightarrow> pos < length (f ! b) \<Longrightarrow>
   todo f b pos = weight (f ! b ! pos) + todo f b (Suc pos)"
  by (simp add: todo_def Cons_nth_drop_Suc [symmetric])

lemma insertAfter_length [simp]: "length (insertAfter f b pos e) = length f"
  by (simp add: insertAfter_def)

lemma insertAfter_todo:
  "b < length f \<Longrightarrow> pos < length (f ! b) \<Longrightarrow>
   todo (insertAfter f b pos e) b (Suc pos) = weight e + todo f b (Suc pos)"
  by (simp add: todo_def insertAfter_def)

lemma insertAfter_todo2:
  "b < length f \<Longrightarrow> pos < length (f ! b) \<Longrightarrow>
   todo (insertAfter (insertAfter f b pos e1) b (Suc pos) e2) b (Suc pos) =
     weight e1 + weight e2 + todo f b (Suc pos)"
  by (simp add: todo_def insertAfter_def)

lemma instrAt_Some:
  "instrAt f b pos = Some e \<Longrightarrow> b < length f \<and> pos < length (f ! b) \<and> f ! b ! pos = e"
  by (auto simp: instrAt_def split: if_splits)

lemma algebraicIdentity_todo:
  "algebraicIdentity f b pos = Inr (r, f') \<Longrightarrow> b < length f \<Longrightarrow>
   length f' = length f \<and> todo f' b k = todo f b k"
  by (cases r)
     (auto dest!: algebraicIdentity_True algebraicIdentity_False
        simp: replaceAllUsesWith_todo replaceAllUsesWith_length)

lemma strengthReduction_todo:
  assumes "strengthReduction f b pos = Inr (r, f')" "b < length f" "pos < length (f ! b)"
  shows "length f' = length f \<and> todo f' b (Suc pos) < todo f b pos"
proof (cases r)
  case False
  with assms show ?thesis
    using weight_pos [of "f ! b ! pos"]
    by (auto dest!: strengthReduction_False simp: todo_Suc)
next
  case True
  with assms(1) have "strengthReduction f b pos = Inr (True, f')" by simp
  then show ?thesis
  proof (rule strengthReduction_TrueE)
    fix n opc op0 op1 sop c rop
    let ?v = "if isa_ConstantInt op0 then op1 else op0"
    let ?f1 = "insertAfter f b pos (fresh f, BinaryOperator sop ?v (ConstantInt c))"
    let ?f2 = "insertAfter ?f1 b (Suc pos) (fresh ?f1, BinaryOperator rop (InstRef (fresh f)) ?v)"
    assume at: "instrAt f b pos = Some (n, BinaryOperator opc op0 op1)"
      and opc: "opc = Mul \<or> opc = SDiv"
      and sop: "sop = Shl \<or> sop = AShr" and rop: "rop = Add \<or> rop = Sub"
      and res: "replaceAllUsesWith ?f1 n (InstRef (fresh f)) = Inr f' \<or>
                replaceAllUsesWith ?f2 n (InstRef (fresh ?f1)) = Inr f'"
    from at opc assms have w: "todo f b pos = 3 + todo f b (Suc pos)"
      by (auto simp: todo_Suc dest!: instrAt_Some)
    from res show ?thesis
    proof
      assume "replaceAllUsesWith ?f1 n (InstRef (fresh f)) = Inr f'"
      with assms sop show ?thesis
        by (auto simp: replaceAllUsesWith_todo replaceAllUsesWith_length insertAfter_todo w)
    next
      assume "replaceAllUsesWith ?f2 n (InstRef (fresh ?f1)) = Inr f'"
      with assms sop rop show ?thesis
        by (auto simp: replaceAllUsesWith_todo replaceAllUsesWith_length insertAfter_todo2 w)
    qed
  qed
qed

lemma uses_loop_todo:
  "uses_loop f b pos c js rm = Inr (f', rm') \<Longrightarrow> b < length f \<Longrightarrow>
   length f' = length f \<and> todo f' b k = todo f b k"
proof (induction js arbitrary: f rm)
  case Nil
  then show ?case by simp
next
  case (Cons j js)
  from Cons.prems show ?case
    by (auto simp: replaceAllUsesWith_todo replaceAllUsesWith_length
        split: option.splits instr.splits if_splits sum.splits prod.splits bool.splits
        dest!: Cons.IH)
qed

lemma multiInstructionOptimization_todo:
  "multiInstructionOptimization f b pos rm = Inr (f', rm') \<Longrightarrow> b < length f \<Longrightarrow>
   length f' = length f \<and> todo f' b k = todo f b k"
  by (auto simp: multiInstructionOptimization_def
      split: option.splits instr.splits if_splits prod.splits dest!: uses_loop_todo)

lemma scanStep_todo:
  assumes "scanStep f b pos rm = Inr (f', rm')" "b < length f" "pos < length (f ! b)"
  shows "length f' = length f \<and> todo f' b (Suc pos) < todo f b pos"
proof -
  from assms(1) obtain r1 f1 where ai: "algebraicIdentity f b pos = Inr (r1, f1)"
    by (auto simp: scanStep_def split: option.splits sum.splits prod.splits)
  from ai assms(2) have l1: "length f1 = length f" and t1: "\<And>k. todo f1 b k = todo f b k"
    by (auto dest: algebraicIdentity_todo)
  show ?thesis
  proof (cases r1)
    case True
    with assms(1) ai obtain n where "multiInstructionOptimization f1 b pos (rm @ [n]) = Inr (f', rm')"
      by (auto simp: scanStep_def split: option.splits prod.splits)
    with l1 t1 assms(2,3) show ?thesis
      using weight_pos [of "f ! b ! pos"]
      by (auto dest!: multiInstructionOptimization_todo [where k = "Suc pos"] simp: todo_Suc)
  next
    case False
    with ai have f1: "f1 = f" by (auto dest: algebraicIdentity_False)
    from assms(1) ai False f1 obtain r2 f2 where sr: "strengthReduction f b pos = Inr (r2, f2)"
      by (auto simp: scanStep_def split: option.splits sum.splits prod.splits)
    from sr assms(2,3) have l2: "length f2 = length f" and t2: "todo f2 b (Suc pos) < todo f b pos"
      by (auto dest: strengthReduction_todo)
    from assms(1) ai False f1 sr obtain rm2 where
      "multiInstructionOptimization f2 b pos rm2 = Inr (f', rm')"
      by (auto simp: scanStep_def split: option.splits prod.splits bool.splits)
    with l2 t2 assms(2) show ?thesis
      by (auto dest!: multiInstructionOptimization_todo [where k = "Suc pos"])
  qed
qed

termination scanBlock
  by (relation "measure (\<lambda>(f, b, pos, rm). todo f b pos)")
     (auto dest: scanStep_todo)

declare scanBlock.simps [simp del]


section \<open>Marked instructions have no uses\<close>

text \<open>
  An instruction is put on the removal list right after \<open>replaceAllUsesWith\<close> has taken
  its uses away, and a use of a value is only ever created from an operand that some
  instruction holds at that moment (or for an instruction that has just been created).
  So an instruction on the list is never an operand again.
\<close>

definition referenced :: "func \<Rightarrow> nat \<Rightarrow> bool" where
  "referenced f e = list_ex (\<lambda>x. InstRef e \<in> set (operands (snd x))) (concat f)"

definition dead_marked :: "func \<Rightarrow> nat list \<Rightarrow> bool" where
  "dead_marked f rm = (set rm \<subseteq> set (ids f) \<and> list_all (\<lambda>e. \<not> referenced f e) rm)"

lemma referenced_iff:
  "referenced f e = (\<exists>x \<in> set (concat f). InstRef e \<in> set (operands (snd x)))"
  by (simp add: referenced_def list_ex_iff)

lemma dead_marked_iff:
  "dead_marked f rm = (set rm \<subseteq> set (ids f) \<and> (\<forall>e \<in> set rm. \<not> referenced f e))"
  by (simp add: dead_marked_def list_all_iff)

lemma operands_subst:
  "operands (subst_instr old new i) = map (subst_val old new) (operands i)"
  by (cases i) auto

lemma replaceAllUsesWith_concat:
  "replaceAllUsesWith f old new = Inr f' \<Longrightarrow> concat f' = map (subst_entry old new) (concat f)"
  by (auto simp: replaceAllUsesWith_def map_concat split: if_splits)

lemma replaceAllUsesWith_ids:
  "replaceAllUsesWith f old new = Inr f' \<Longrightarrow> ids f' = ids f"
  by (simp add: ids_def replaceAllUsesWith_concat subst_entry_def comp_def)

lemma replaceAllUsesWith_referenced:
  assumes "replaceAllUsesWith f old new = Inr f'" "referenced f' e"
  shows "(referenced f e \<and> e \<noteq> old) \<or> (new = InstRef e \<and> referenced f old)"
proof -
  from assms obtain x v where x: "x \<in> set (concat f)" and v: "v \<in> set (operands (snd x))"
    and s: "subst_val old new v = InstRef e"
    by (auto simp: referenced_iff replaceAllUsesWith_concat subst_entry_def operands_subst
        simp del: set_concat)
  show ?thesis
  proof (cases "v = InstRef old")
    case True
    with x v s show ?thesis by (auto simp: referenced_iff subst_val_def)
  next
    case False
    with x v s show ?thesis by (auto simp: referenced_iff subst_val_def)
  qed
qed

lemma replaceAllUsesWith_self: "replaceAllUsesWith f old new = Inr f' \<Longrightarrow> new \<noteq> InstRef old"
  by (auto simp: replaceAllUsesWith_def split: if_splits)

lemma set_concat_update:
  "b < length f \<Longrightarrow> set ys = insert x (set (f ! b)) \<Longrightarrow>
   set (concat (f[b := ys])) = insert x (set (concat f))"
proof (induction f arbitrary: b)
  case Nil
  then show ?case by simp
next
  case (Cons a f)
  then show ?case by (cases b) auto
qed

lemma insertAfter_concat:
  "b < length f \<Longrightarrow> set (concat (insertAfter f b pos x)) = insert x (set (concat f))"
proof -
  assume b: "b < length f"
  have "set (take (Suc pos) (f ! b) @ x # drop (Suc pos) (f ! b)) = insert x (set (f ! b))"
    using set_append [of "take (Suc pos) (f ! b)" "drop (Suc pos) (f ! b)"]
    unfolding append_take_drop_id by auto
  with b show ?thesis
    unfolding insertAfter_def by (rule set_concat_update)
qed

lemma insertAfter_ids:
  "b < length f \<Longrightarrow> set (ids (insertAfter f b pos x)) = insert (fst x) (set (ids f))"
  by (simp add: ids_def insertAfter_concat del: set_concat)

lemma insertAfter_referenced:
  "b < length f \<Longrightarrow>
   referenced (insertAfter f b pos x) e = (InstRef e \<in> set (operands (snd x)) \<or> referenced f e)"
  by (simp add: referenced_iff insertAfter_concat del: set_concat)

lemma fold_max_ge: "m \<le> fold max xs m \<and> (\<forall>x \<in> set xs. x \<le> fold max xs (m::nat))"
proof (induction xs arbitrary: m)
  case Nil
  then show ?case by simp
next
  case (Cons a xs)
  have "max a m \<le> fold max xs (max a m)" using Cons.IH by blast
  with Cons.IH [of "max a m"] show ?case by auto
qed

lemma fresh_notin: "fresh f \<notin> set (ids f)"
  using fold_max_ge [of 0 "ids f"] by (auto simp: fresh_def)

lemma instrAt_mem: "instrAt f b pos = Some x \<Longrightarrow> x \<in> set (concat f)"
  by (auto simp: instrAt_def split: if_splits intro!: bexI [of _ "f ! b"])

lemma instrAt_id: "instrAt f b pos = Some (n, i) \<Longrightarrow> n \<in> set (ids f)"
  by (force simp: ids_def simp del: set_concat dest: instrAt_mem)

lemma instrAt_referenced:
  "instrAt f b pos = Some (n, i) \<Longrightarrow> InstRef e \<in> set (operands i) \<Longrightarrow> referenced f e"
  by (force simp: referenced_iff simp del: set_concat dest: instrAt_mem)

lemma lookup_id: "lookup f j = Some i \<Longrightarrow> j \<in> set (ids f)"
  by (force simp: lookup_def ids_def simp del: set_concat dest: map_of_SomeD)

lemma dead_marked_replace:
  assumes "dead_marked f rm" "replaceAllUsesWith f old new = Inr f'" "old \<in> set (ids f)"
    "\<And>e. new = InstRef e \<Longrightarrow> e \<notin> set rm"
  shows "dead_marked f' (rm @ [old])"
  using assms replaceAllUsesWith_self [OF assms(2)]
  by (auto simp: dead_marked_iff replaceAllUsesWith_ids dest: replaceAllUsesWith_referenced)

lemma dead_marked_insert:
  assumes "dead_marked f rm" "b < length f" "\<And>e. InstRef e \<in> set (operands (snd x)) \<Longrightarrow> e \<notin> set rm"
  shows "dead_marked (insertAfter f b pos x) rm"
  using assms by (auto simp: dead_marked_iff insertAfter_ids insertAfter_referenced)

lemma dead_marked_operand:
  "dead_marked f rm \<Longrightarrow> instrAt f b pos = Some (n, i) \<Longrightarrow>
   InstRef e \<in> set (operands i) \<Longrightarrow> e \<notin> set rm"
  by (auto simp: dead_marked_iff dest: instrAt_referenced)

lemma algebraicIdentity_dead:
  assumes "algebraicIdentity f b pos = Inr (True, f')" "dead_marked f rm"
    "instrAt f b pos = Some (n, i)"
  shows "dead_marked f' (rm @ [n])"
proof -
  from assms(1) obtain n' opc op0 op1 where
    at: "instrAt f b pos = Some (n', BinaryOperator opc op0 op1)" and
    r: "replaceAllUsesWith f n' (if isa_Constant op0 then op1 else op0) = Inr f'"
    by (auto dest!: algebraicIdentity_True)
  from at assms(3) have n: "n' = n" by simp
  show ?thesis
    using assms(2) r [unfolded n]
  proof (rule dead_marked_replace)
    show "n \<in> set (ids f)" using assms(3) by (rule instrAt_id)
  next
    fix e assume "(if isa_Constant op0 then op1 else op0) = InstRef e"
    then have "InstRef e \<in> set (operands (BinaryOperator opc op0 op1))"
      by (auto split: if_splits)
    with assms(2) at show "e \<notin> set rm" by (rule dead_marked_operand)
  qed
qed

lemma dead_marked_ids: "dead_marked f rm \<Longrightarrow> e \<in> set rm \<Longrightarrow> e \<in> set (ids f)"
  by (auto simp: dead_marked_iff)

lemma strengthReduction_dead:
  assumes sr: "strengthReduction f b pos = Inr (True, f')" and dm: "dead_marked f rm"
    and at: "instrAt f b pos = Some (n, i)"
  shows "dead_marked f' (rm @ [n])"
  using sr
proof (rule strengthReduction_TrueE)
  fix n' opc op0 op1 sop c rop
  let ?v = "if isa_ConstantInt op0 then op1 else op0"
  let ?f1 = "insertAfter f b pos (fresh f, BinaryOperator sop ?v (ConstantInt c))"
  let ?f2 = "insertAfter ?f1 b (Suc pos) (fresh ?f1, BinaryOperator rop (InstRef (fresh f)) ?v)"
  assume at': "instrAt f b pos = Some (n', BinaryOperator opc op0 op1)"
    and res': "replaceAllUsesWith ?f1 n' (InstRef (fresh f)) = Inr f' \<or>
               replaceAllUsesWith ?f2 n' (InstRef (fresh ?f1)) = Inr f'"
  from at at' have n: "n' = n" by simp
  note res = res' [unfolded n]
  from at have b: "b < length f" by (auto dest: instrAt_Some)
  have v: "e \<notin> set rm" if "?v = InstRef e" for e
  proof -
    from that have "InstRef e \<in> set (operands (BinaryOperator opc op0 op1))"
      by (auto split: if_splits)
    with dm at' show ?thesis by (rule dead_marked_operand)
  qed
  have v': "e \<notin> set rm" if "InstRef e = ?v" for e
    using v [OF that [symmetric]] .
  have fr: "fresh f \<notin> set rm"
    using dm fresh_notin [of f] by (auto dest: dead_marked_ids)
  have d1: "dead_marked ?f1 rm"
    using dm b by (rule dead_marked_insert) (auto dest: v')
  have fr1: "fresh ?f1 \<notin> set rm"
    using d1 fresh_notin [of ?f1] by (auto dest: dead_marked_ids)
  have d2: "dead_marked ?f2 rm"
    using d1 by (rule dead_marked_insert) (use b fr in \<open>auto dest: v'\<close>)
  have n1: "n \<in> set (ids ?f1)"
    using at b by (auto simp: insertAfter_ids dest: instrAt_id)
  have n2: "n \<in> set (ids ?f2)"
    using n1 b by (auto simp: insertAfter_ids)
  from res show ?thesis
  proof
    assume "replaceAllUsesWith ?f1 n (InstRef (fresh f)) = Inr f'"
    with d1 show ?thesis by (rule dead_marked_replace) (use n1 fr in auto)
  next
    assume "replaceAllUsesWith ?f2 n (InstRef (fresh ?f1)) = Inr f'"
    with d2 show ?thesis by (rule dead_marked_replace) (use n2 fr1 in auto)
  qed
qed

lemma uses_loop_ConsE:
  assumes u0: "uses_loop f b pos c (j # js) rm = Inr (f', rm')"
  obtains (skip) "uses_loop f b pos c js rm = Inr (f', rm')"
  | (cancel) g n opc op0 op1 jins where
      "uses_loop g b pos c js (rm @ [j]) = Inr (f', rm')"
      "lookup f j = Some jins"
      "instrAt f b pos = Some (n, BinaryOperator opc op0 op1)"
      "replaceAllUsesWith f j (if isa_Constant op0 then op1 else op0) = Inr g"
proof (cases "lookup f j")
  case None
  with u0 show ?thesis by simp
next
  case (Some jins)
  note [simp del] = checkOperands.simps
  show ?thesis
  proof (cases jins)
    case (OtherInst k ops)
    with u0 Some show ?thesis by (auto intro: skip)
  next
    case (BinaryOperator jopc j0 j1)
    note jb = Some [unfolded BinaryOperator]
    have u: "(if \<not> checkOperands (BinaryOperator jopc j0 j1)
          then uses_loop f b pos c js rm
          else
            (case instrAt f b pos of
               None \<Rightarrow> Inl InvalidReference
             | Some (n, OtherInst k ops) \<Rightarrow> Inl InvalidReference
             | Some (n, BinaryOperator opc op0 op1) \<Rightarrow>
                 if opposite opc jopc then
                   (case dyn_cast_ConstantInt (if isa_Constant op0 then j0 else j1) of
                      None \<Rightarrow> Inl NullDereference
                    | Some IterConstant \<Rightarrow>
                        (case eq_APInt c IterConstant of
                           Inl e \<Rightarrow> Inl e
                         | Inr False \<Rightarrow> uses_loop f b pos c js rm
                         | Inr True \<Rightarrow>
                             (case replaceAllUsesWith f j (if isa_Constant op0 then op1 else op0) of
                                Inl e \<Rightarrow> Inl e
                              | Inr f' \<Rightarrow>
                                  uses_loop f' b pos c js (rm @ [j]))))
                 else uses_loop f b pos c js rm)) = Inr (f', rm')"
      using u0 jb by simp
    show ?thesis
    proof (cases "checkOperands (BinaryOperator jopc j0 j1)")
      case False
      with u show ?thesis by (auto intro: skip)
    next
      case True
      with u obtain n opc op0 op1 where
        at: "instrAt f b pos = Some (n, BinaryOperator opc op0 op1)"
        by (cases "instrAt f b pos") (auto split: prod.splits instr.splits)
      show ?thesis
      proof (cases "opposite opc jopc")
        case False
        with u True at show ?thesis by (auto intro: skip)
      next
        case opp: True
        with u True at obtain ic where
          ic: "dyn_cast_ConstantInt (if isa_Constant op0 then j0 else j1) = Some ic"
          by (cases "dyn_cast_ConstantInt (if isa_Constant op0 then j0 else j1)") auto
        with u True at opp obtain q where q: "eq_APInt c ic = Inr q"
          by (cases "eq_APInt c ic") auto
        show ?thesis
        proof (cases q)
          case False
          with u True at opp ic q show ?thesis by (auto intro: skip)
        next
          case qt: True
          with u True at opp ic q obtain g where
            g: "replaceAllUsesWith f j (if isa_Constant op0 then op1 else op0) = Inr g"
            by (cases "replaceAllUsesWith f j (if isa_Constant op0 then op1 else op0)") auto
          with u True at opp ic q qt
          have "uses_loop g b pos c js (rm @ [j]) = Inr (f', rm')" by simp
          then show ?thesis using Some at g by (rule cancel)
        qed
      qed
    qed
  qed
qed

lemma uses_loop_dead:
  "uses_loop f b pos c js rm = Inr (f', rm') \<Longrightarrow> dead_marked f rm \<Longrightarrow> dead_marked f' rm'"
proof (induction js arbitrary: f rm)
  case Nil
  then show ?case by simp
next
  case (Cons j js)
  from Cons.prems(1) show ?case
  proof (cases rule: uses_loop_ConsE)
    case skip
    then show ?thesis using Cons.prems(2) by (rule Cons.IH)
  next
    case (cancel g n opc op0 op1 jins)
    have "dead_marked g (rm @ [j])"
      using Cons.prems(2) cancel(4)
    proof (rule dead_marked_replace)
      show "j \<in> set (ids f)" using cancel(2) by (rule lookup_id)
    next
      fix e assume "(if isa_Constant op0 then op1 else op0) = InstRef e"
      then have "InstRef e \<in> set (operands (BinaryOperator opc op0 op1))"
        by (auto split: if_splits)
      with Cons.prems(2) cancel(3) show "e \<notin> set rm" by (rule dead_marked_operand)
    qed
    with cancel(1) show ?thesis by (rule Cons.IH)
  qed
qed

lemma multiInstructionOptimization_dead:
  "multiInstructionOptimization f b pos rm = Inr (f', rm') \<Longrightarrow> dead_marked f rm \<Longrightarrow>
   dead_marked f' rm'"
  by (auto simp: multiInstructionOptimization_def
      split: option.splits instr.splits if_splits prod.splits dest: uses_loop_dead)

lemma scanStep_dead:
  assumes st: "scanStep f b pos rm = Inr (f', rm')" and dm: "dead_marked f rm"
  shows "dead_marked f' rm'"
proof -
  from st obtain n i where at: "instrAt f b pos = Some (n, i)"
    by (auto simp: scanStep_def split: option.splits)
  from st at obtain r1 f1 where ai: "algebraicIdentity f b pos = Inr (r1, f1)"
    by (auto simp: scanStep_def split: sum.splits prod.splits)
  show ?thesis
  proof (cases r1)
    case True
    with st at ai have m: "multiInstructionOptimization f1 b pos (rm @ [n]) = Inr (f', rm')"
      by (simp add: scanStep_def)
    from ai True dm at have "dead_marked f1 (rm @ [n])"
      by (auto intro: algebraicIdentity_dead)
    with m show ?thesis by (rule multiInstructionOptimization_dead)
  next
    case False
    with ai have f1: "f1 = f" by (auto dest: algebraicIdentity_False)
    from st at ai False f1 obtain r2 f2 where sr: "strengthReduction f b pos = Inr (r2, f2)"
      by (auto simp: scanStep_def split: sum.splits prod.splits)
    show ?thesis
    proof (cases r2)
      case True
      with st at ai False f1 sr
      have m: "multiInstructionOptimization f2 b pos (rm @ [n]) = Inr (f', rm')"
        by (simp add: scanStep_def)
      from sr True dm at have "dead_marked f2 (rm @ [n])"
        by (auto intro: strengthReduction_dead)
      with m show ?thesis by (rule multiInstructionOptimization_dead)
    next
      case r2: False
      with sr have f2: "f2 = f" by (auto dest: strengthReduction_False)
      from st at ai False f1 sr r2 f2
      have m: "multiInstructionOptimization f b pos rm = Inr (f', rm')"
        by (simp add: scanStep_def)
      from m dm show ?thesis by (rule multiInstructionOptimization_dead)
    qed
  qed
qed

lemma scanBlock_dead:
  "scanBlock f b pos rm = Inr (f', rm') \<Longrightarrow> dead_marked f rm \<Longrightarrow> dead_marked f' rm'"
proof (induction f b pos rm rule: scanBlock.induct)
  case (1 f b pos rm)
  show ?case
  proof (cases "b < length f \<and> pos < length (f ! b)")
    case True
    with "1.prems"(1) obtain g rm1 where
      st: "scanStep f b pos rm = Inr (g, rm1)" and sc: "scanBlock g b (Suc pos) rm1 = Inr (f', rm')"
      by (subst (asm) scanBlock.simps) (auto split: sum.splits prod.splits)
    from st "1.prems"(2) have "dead_marked g rm1" by (rule scanStep_dead)
    with "1.IH" [OF True st refl sc] show ?thesis by simp
  next
    case False
    with "1.prems" show ?thesis
      by (subst (asm) scanBlock.simps) auto
  qed
qed

section \<open>The scan only adds\<close>

text \<open>
  A step of the scan never takes an instruction out of the function, it only appends to
  the removal list, and a step that appends nothing leaves the function as it was.
\<close>

lemma uses_loop_grows:
  "uses_loop f b pos c js rm = Inr (f', rm') \<Longrightarrow>
   ids f' = ids f \<and> prefix rm rm' \<and> (rm' = rm \<longrightarrow> f' = f)"
proof (induction js arbitrary: f rm)
  case Nil
  then show ?case by simp
next
  case (Cons j js)
  from Cons.prems show ?case
  proof (cases rule: uses_loop_ConsE)
    case skip
    then show ?thesis by (rule Cons.IH)
  next
    case (cancel g n opc op0 op1 jins)
    from cancel(1) have "ids f' = ids g \<and> prefix (rm @ [j]) rm' \<and> (rm' = rm @ [j] \<longrightarrow> f' = g)"
      by (rule Cons.IH)
    moreover from cancel(4) have "ids g = ids f" by (rule replaceAllUsesWith_ids)
    ultimately show ?thesis
      by (auto simp: prefix_def)
  qed
qed

lemma multiInstructionOptimization_grows:
  "multiInstructionOptimization f b pos rm = Inr (f', rm') \<Longrightarrow>
   ids f' = ids f \<and> prefix rm rm' \<and> (rm' = rm \<longrightarrow> f' = f)"
  by (auto simp: multiInstructionOptimization_def
      split: option.splits instr.splits if_splits prod.splits dest: uses_loop_grows)

lemma strengthReduction_ids:
  assumes "strengthReduction f b pos = Inr (r, f')"
  shows "set (ids f) \<subseteq> set (ids f')"
proof (cases r)
  case False
  with assms show ?thesis by (auto dest: strengthReduction_False)
next
  case True
  with assms have "strengthReduction f b pos = Inr (True, f')" by simp
  then show ?thesis
  proof (rule strengthReduction_TrueE)
    fix n opc op0 op1 sop c rop
    let ?v = "if isa_ConstantInt op0 then op1 else op0"
    let ?f1 = "insertAfter f b pos (fresh f, BinaryOperator sop ?v (ConstantInt c))"
    let ?f2 = "insertAfter ?f1 b (Suc pos) (fresh ?f1, BinaryOperator rop (InstRef (fresh f)) ?v)"
    assume at: "instrAt f b pos = Some (n, BinaryOperator opc op0 op1)"
      and res: "replaceAllUsesWith ?f1 n (InstRef (fresh f)) = Inr f' \<or>
                replaceAllUsesWith ?f2 n (InstRef (fresh ?f1)) = Inr f'"
    from at have b: "b < length f" by (auto dest: instrAt_Some)
    from res b show ?thesis
      by (auto simp: insertAfter_ids dest!: replaceAllUsesWith_ids)
  qed
qed

lemma scanStep_grows:
  assumes st: "scanStep f b pos rm = Inr (f', rm')"
  shows "set (ids f) \<subseteq> set (ids f') \<and> prefix rm rm' \<and> (rm' = rm \<longrightarrow> f' = f)"
proof -
  from st obtain n i where at: "instrAt f b pos = Some (n, i)"
    by (auto simp: scanStep_def split: option.splits)
  from st at obtain r1 f1 where ai: "algebraicIdentity f b pos = Inr (r1, f1)"
    by (auto simp: scanStep_def split: sum.splits prod.splits)
  show ?thesis
  proof (cases r1)
    case True
    with st at ai have m: "multiInstructionOptimization f1 b pos (rm @ [n]) = Inr (f', rm')"
      by (simp add: scanStep_def)
    from ai True have "ids f1 = ids f"
      by (auto dest!: algebraicIdentity_True replaceAllUsesWith_ids)
    with multiInstructionOptimization_grows [OF m] show ?thesis
      by (auto simp: prefix_def)
  next
    case False
    with ai have f1: "f1 = f" by (auto dest: algebraicIdentity_False)
    from st at ai False f1 obtain r2 f2 where sr: "strengthReduction f b pos = Inr (r2, f2)"
      by (auto simp: scanStep_def split: sum.splits prod.splits)
    note i2 = strengthReduction_ids [OF sr]
    show ?thesis
    proof (cases r2)
      case True
      with st at ai False f1 sr
      have m: "multiInstructionOptimization f2 b pos (rm @ [n]) = Inr (f', rm')"
        by (simp add: scanStep_def)
      with multiInstructionOptimization_grows [OF m] i2 show ?thesis
        by (auto simp: prefix_def)
    next
      case r2: False
      with sr have f2: "f2 = f" by (auto dest: strengthReduction_False)
      from st at ai False f1 sr r2 f2
      have m: "multiInstructionOptimization f b pos rm = Inr (f', rm')"
        by (simp add: scanStep_def)
      from multiInstructionOptimization_grows [OF m] show ?thesis by auto
    qed
  qed
qed

lemma scanBlock_grows:
  "scanBlock f b pos rm = Inr (f', rm') \<Longrightarrow>
   set (ids f) \<subseteq> set (ids f') \<and> prefix rm rm' \<and> (rm' = rm \<longrightarrow> f' = f)"
proof (induction f b pos rm rule: scanBlock.induct)
  case (1 f b pos rm)
  show ?case
  proof (cases "b < length f \<and> pos < length (f ! b)")
    case True
    with "1.prems"(1) obtain g rm1 where
      st: "scanStep f b pos rm = Inr (g, rm1)" and sc: "scanBlock g b (Suc pos) rm1 = Inr (f', rm')"
      by (subst (asm) scanBlock.simps) (auto split: sum.splits prod.splits)
    from scanStep_grows [OF st] "1.IH" [OF True st refl sc] show ?thesis
      by (auto dest: prefix_order.antisym prefix_order.trans)
  next
    case False
    with "1.prems" show ?thesis
      by (subst (asm) scanBlock.simps) auto
  qed
qed

lemma filter_ids:
  "set (ids (map (filter (\<lambda>e. fst e \<noteq> n)) f)) = set (ids f) - {n}"
  by (auto simp: ids_def filter_concat [symmetric] simp del: set_concat)

lemma filter_referenced:
  "referenced (map (filter P) f) e \<Longrightarrow> referenced f e"
  by (force simp: referenced_iff filter_concat [symmetric] simp del: set_concat)

lemma eraseAll_sound:
  "eraseAll f ns = Inr f' \<Longrightarrow>
   distinct ns \<and> set ns \<subseteq> set (ids f) \<and> set (ids f') = set (ids f) - set ns \<and>
   (\<forall>e. referenced f' e \<longrightarrow> referenced f e)"
proof (induction ns arbitrary: f)
  case Nil
  then show ?case by simp
next
  case (Cons n ns)
  from Cons.prems obtain g where g: "eraseFromParent f n = Inr g" and e: "eraseAll g ns = Inr f'"
    by (auto split: sum.splits)
  from g have n: "n \<in> set (ids f)" and gd: "g = map (filter (\<lambda>e. fst e \<noteq> n)) f"
    by (auto simp: eraseFromParent_def split: if_splits)
  from gd have gi: "set (ids g) = set (ids f) - {n}" by (simp add: filter_ids)
  from gd have gr: "\<And>e. referenced g e \<Longrightarrow> referenced f e" by (auto dest: filter_referenced)
  from Cons.IH [OF e] n gi gr show ?case by auto
qed


section \<open>The claims\<close>

subsection \<open>Operand Classifier\<close>

text \<open>
  C8. For every binary instruction the classifier answers "mixed" if and only if
  exactly one of the two operands is an integer constant (the Constant of the data
  model: a fixed-width integer) and the other is not; it answers "not mixed" when both
  are constants and when neither is.
\<close>

theorem checkOperands_mixed:
  "checkOperands (BinaryOperator opc a b) =
     ((isa_ConstantInt a \<and> \<not> isa_ConstantInt b) \<or> (isa_ConstantInt b \<and> \<not> isa_ConstantInt a))"
  by auto

subsection \<open>Algebraic Identity\<close>

text \<open>
  C7. The block is \<open>%1 = add i32 undef, 0; ret i32 %1\<close>: the instruction is mixed (one
  integer constant, one operand that is not an integer constant) and its pair is
  (Add, 0), so the rule should redirect the uses of \<open>%1\<close> to the other operand and answer
  "matched". The rule looks for the constant's slot with \<open>isa<Constant>\<close>, finds the undef
  in slot 0, and reads the value of a null \<open>ConstantInt\<close>.
\<close>

theorem algebraicIdentity_other_constant:
  "algebraicIdentity
     [[(1, BinaryOperator Add (OtherConstant 0) (ConstantInt (APInt 32 0))),
       (2, OtherInst 0 [InstRef 1])]] 0 0
   = Inl NullDereference"
  by code_simp

subsection \<open>Strength Reduction\<close>

text \<open>
  C2. The block is \<open>%1 = mul i32 %x, 7; ret i32 %1\<close>. The nearest exponent is 3 and the
  rest is \<open>7 - 8 = -1\<close>, so the second instruction should be a Sub: \<open>(%x << 3) - %x\<close>. The
  rule tests \<open>Rest.ugt(0)\<close>, an unsigned comparison that holds for every rest but zero,
  and creates an Add: \<open>(%x << 3) + %x\<close>.
\<close>

theorem strengthReduction_mul7_is_add:
  "strengthReduction
     [[(1, BinaryOperator Mul (Argument 0) (ConstantInt (APInt 32 7))),
       (2, OtherInst 0 [InstRef 1])]] 0 0
   = Inr (True,
       [[(1, BinaryOperator Mul (Argument 0) (ConstantInt (APInt 32 7))),
         (3, BinaryOperator Shl (Argument 0) (ConstantInt (APInt 32 3))),
         (4, BinaryOperator Add (InstRef 3) (Argument 0)),
         (2, OtherInst 0 [InstRef 4])]])"
  by code_simp

text \<open>The rest is never below zero as an unsigned number, so whenever the second
  instruction is created the test \<open>Rest.ugt(0)\<close> holds and the opcode is Add.\<close>

lemma rest_ugt_0:
  assumes "\<not> eq_u64 (sub_u64 a r) 0"
  shows "ugt (sub_u64 a r) 0"
proof -
  have "(0::int) < 2 ^ BitWidth a" by simp
  then have "0 \<le> (VAL a - r) mod 2 ^ BitWidth a" by (rule pos_mod_sign)
  moreover from assms have "(VAL a - r) mod 2 ^ BitWidth a \<noteq> 0"
    by (simp add: eq_u64_def sub_u64_def)
  ultimately have "0 < (VAL a - r) mod 2 ^ BitWidth a" by linarith
  then show ?thesis by (simp add: ugt_def sub_u64_def)
qed

text \<open>
  C6. A signed division by \<open>-2147483648\<close> (the bits \<open>0x80000000\<close>), which is no power of two,
  is rewritten to an arithmetic shift by 31: the nearest exponent of the unsigned value is
  31, and \<open>1 << 31\<close> taken modulo \<open>2 ^ 32\<close> is the constant itself, so the rest is 0. A
  signed division by \<open>-3\<close> (the bits \<open>0xFFFFFFFD\<close>) has the nearest exponent 32, and the rule
  evaluates \<open>1 << 32\<close> on an \<open>int\<close> before it can answer "no match".
\<close>

theorem strengthReduction_sdiv_negative:
  "strengthReduction
     [[(1, BinaryOperator SDiv (Argument 0) (ConstantInt (APInt 32 2147483648))),
       (2, OtherInst 0 [InstRef 1])]] 0 0
   = Inr (True,
       [[(1, BinaryOperator SDiv (Argument 0) (ConstantInt (APInt 32 2147483648))),
         (3, BinaryOperator AShr (Argument 0) (ConstantInt (APInt 32 31))),
         (2, OtherInst 0 [InstRef 3])]])
   \<and>
   strengthReduction
     [[(1, BinaryOperator SDiv (Argument 0) (ConstantInt (APInt 32 4294967293))),
       (2, OtherInst 0 [InstRef 1])]] 0 0
   = Inl ShiftOutOfRange"
  by (rule conjI; code_simp)

subsection \<open>Cross-Instruction Cancellation\<close>

text \<open>
  C1. The block is \<open>%1 = add i32 5, %x; %2 = sub i32 %1, 5; ret i32 %2\<close>, and the rule runs
  on \<open>%1\<close>. The consumer \<open>%2\<close> is a mixed Sub whose constant is 5, so it should cancel. The
  rule reads the consumer's operand in the slot where \<open>%1\<close> has its constant (slot 0);
  there the consumer holds \<open>%1\<close>, and the rule reads the value of a null \<open>ConstantInt\<close>.
  With both constants in slot 1 the same pair cancels.
\<close>

theorem cancellation_reads_producer_slot:
  "multiInstructionOptimization
     [[(1, BinaryOperator Add (ConstantInt (APInt 32 5)) (Argument 0)),
       (2, BinaryOperator Sub (InstRef 1) (ConstantInt (APInt 32 5))),
       (3, OtherInst 0 [InstRef 2])]] 0 0 []
   = Inl NullDereference
   \<and>
   multiInstructionOptimization
     [[(1, BinaryOperator Add (Argument 0) (ConstantInt (APInt 32 5))),
       (2, BinaryOperator Sub (InstRef 1) (ConstantInt (APInt 32 5))),
       (3, OtherInst 0 [InstRef 2])]] 0 0 []
   = Inr ([[(1, BinaryOperator Add (Argument 0) (ConstantInt (APInt 32 5))),
            (2, BinaryOperator Sub (InstRef 1) (ConstantInt (APInt 32 5))),
            (3, OtherInst 0 [Argument 0])]], [2])"
  by (rule conjI; code_simp)

subsection \<open>Block Rewriter\<close>

text \<open>
  C3, as the claim states it, fails: on the block \<open>%1 = add i32 %x, %y; ret i32 %1\<close> no
  rule matches, the removal list stays empty and the block is not modified, and
  \<open>runOnBasicBlock\<close> returns true.
\<close>

theorem runOnBasicBlock_true_unmodified:
  "scanBlock
     [[(1, BinaryOperator Add (Argument 0) (Argument 1)), (2, OtherInst 0 [InstRef 1])]] 0 0 []
   = Inr ([[(1, BinaryOperator Add (Argument 0) (Argument 1)), (2, OtherInst 0 [InstRef 1])]], [])
   \<and>
   runOnBasicBlock
     [[(1, BinaryOperator Add (Argument 0) (Argument 1)), (2, OtherInst 0 [InstRef 1])]] 0
   = Inr (True,
       [[(1, BinaryOperator Add (Argument 0) (Argument 1)), (2, OtherInst 0 [InstRef 1])]])"
  by (rule conjI; code_simp)

text \<open>
  C3, amended. \<open>runOnBasicBlock\<close> keeps no record of a modification. It returns exactly
  when the scan and the erase loop complete, and then it returns true with the function
  the erase loop has left, whether the removal list is empty or not.
\<close>

theorem runOnBasicBlock_true:
  "(runOnBasicBlock f b = Inr (r, f')) =
     (r \<and> (\<exists>f1 toRemove. scanBlock f b 0 [] = Inr (f1, toRemove) \<and>
              eraseAll f1 toRemove = Inr f'))"
  by (auto simp: runOnBasicBlock_def split: sum.splits prod.splits)

theorem runOnBasicBlock_true_witness:
  "runOnBasicBlock
     [[(1, BinaryOperator Add (Argument 0) (ConstantInt (APInt 32 0))),
       (2, OtherInst 0 [InstRef 1])]] 0
   = Inr (True, [[(2, OtherInst 0 [Argument 0])]])"
proof -
  have scan: "scanBlock
       [[(1, BinaryOperator Add (Argument 0) (ConstantInt (APInt 32 0))),
         (2, OtherInst 0 [InstRef 1])]] 0 0 []
     = Inr ([[(1, BinaryOperator Add (Argument 0) (ConstantInt (APInt 32 0))),
              (2, OtherInst 0 [Argument 0])]], [1])"
    by code_simp
  have erase: "eraseAll
       [[(1, BinaryOperator Add (Argument 0) (ConstantInt (APInt 32 0))),
         (2, OtherInst 0 [Argument 0])]] [1]
     = Inr [[(2, OtherInst 0 [Argument 0])]]"
    by code_simp
  from scan erase show ?thesis
    unfolding runOnBasicBlock_true by blast
qed

text \<open>
  C9. While the block is scanned no instruction leaves the function: the rules only
  append to the removal list. When the scan ends no instruction has a listed instruction
  as an operand: its uses were redirected when it was listed. The instructions are erased
  afterwards; when that loop completes it has erased exactly the listed instructions,
  each one once, and no surviving instruction refers to an erased one.
\<close>

theorem deferred_erase:
  assumes "scanBlock f b 0 [] = Inr (f1, toRemove)"
  shows "set (ids f) \<subseteq> set (ids f1) \<and>
     (\<forall>e \<in> set toRemove. \<not> referenced f1 e) \<and>
     (\<forall>f2. eraseAll f1 toRemove = Inr f2 \<longrightarrow>
        runOnBasicBlock f b = Inr (True, f2) \<and>
        distinct toRemove \<and>
        set (ids f2) = set (ids f1) - set toRemove \<and>
        (\<forall>e \<in> set toRemove. \<not> referenced f2 e))"
proof -
  have "dead_marked f []" by (simp add: dead_marked_def)
  with assms have "dead_marked f1 toRemove" by (rule scanBlock_dead)
  then have d: "\<forall>e \<in> set toRemove. \<not> referenced f1 e" by (simp add: dead_marked_iff)
  have e: "runOnBasicBlock f b = Inr (True, f2) \<and> distinct toRemove \<and>
      set (ids f2) = set (ids f1) - set toRemove \<and> (\<forall>e \<in> set toRemove. \<not> referenced f2 e)"
    if "eraseAll f1 toRemove = Inr f2" for f2
    using assms that d eraseAll_sound [OF that] by (auto simp: runOnBasicBlock_def)
  from scanBlock_grows [OF assms] d e show ?thesis by blast
qed

theorem deferred_erase_witness:
  "runOnBasicBlock
     [[(1, BinaryOperator Mul (Argument 0) (ConstantInt (APInt 32 5))),
       (2, OtherInst 0 [InstRef 1])]] 0
   = Inr (True,
       [[(3, BinaryOperator Shl (Argument 0) (ConstantInt (APInt 32 2))),
         (4, BinaryOperator Add (InstRef 3) (Argument 0)),
         (2, OtherInst 0 [InstRef 4])]])
   \<and> \<not> referenced
       [[(3, BinaryOperator Shl (Argument 0) (ConstantInt (APInt 32 2))),
         (4, BinaryOperator Add (InstRef 3) (Argument 0)),
         (2, OtherInst 0 [InstRef 4])]] 1"
proof -
  have scan: "scanBlock
       [[(1, BinaryOperator Mul (Argument 0) (ConstantInt (APInt 32 5))),
         (2, OtherInst 0 [InstRef 1])]] 0 0 []
     = Inr ([[(1, BinaryOperator Mul (Argument 0) (ConstantInt (APInt 32 5))),
              (3, BinaryOperator Shl (Argument 0) (ConstantInt (APInt 32 2))),
              (4, BinaryOperator Add (InstRef 3) (Argument 0)),
              (2, OtherInst 0 [InstRef 4])]], [1])"
    by code_simp
  have erase: "eraseAll
       [[(1, BinaryOperator Mul (Argument 0) (ConstantInt (APInt 32 5))),
         (3, BinaryOperator Shl (Argument 0) (ConstantInt (APInt 32 2))),
         (4, BinaryOperator Add (InstRef 3) (Argument 0)),
         (2, OtherInst 0 [InstRef 4])]] [1]
     = Inr [[(3, BinaryOperator Shl (Argument 0) (ConstantInt (APInt 32 2))),
             (4, BinaryOperator Add (InstRef 3) (Argument 0)),
             (2, OtherInst 0 [InstRef 4])]]"
    by code_simp
  from deferred_erase [OF scan, THEN conjunct2, THEN conjunct2, rule_format, OF erase]
  show ?thesis by simp
qed

text \<open>
  C10. The block is \<open>%1 = sdiv i32 %x, 3; %2 = mul i32 %1, 3; ret i32 %2\<close>. At \<open>%1\<close> no rule
  of its own matches and the cancellation lists its consumer \<open>%2\<close>. The scan then visits
  \<open>%2\<close>, strength reduction matches it (3 is next to 4) and it is listed again. The
  removal list holds \<open>%2\<close> twice, and the second \<open>eraseFromParent\<close> is called on an
  instruction that was deleted already.
\<close>

theorem double_erase:
  "scanBlock
     [[(1, BinaryOperator SDiv (Argument 0) (ConstantInt (APInt 32 3))),
       (2, BinaryOperator Mul (InstRef 1) (ConstantInt (APInt 32 3))),
       (3, OtherInst 0 [InstRef 2])]] 0 0 []
   = Inr ([[(1, BinaryOperator SDiv (Argument 0) (ConstantInt (APInt 32 3))),
            (2, BinaryOperator Mul (InstRef 1) (ConstantInt (APInt 32 3))),
            (4, BinaryOperator Shl (InstRef 1) (ConstantInt (APInt 32 2))),
            (5, BinaryOperator Add (InstRef 4) (InstRef 1)),
            (3, OtherInst 0 [Argument 0])]], [2, 2])
   \<and>
   runOnBasicBlock
     [[(1, BinaryOperator SDiv (Argument 0) (ConstantInt (APInt 32 3))),
       (2, BinaryOperator Mul (InstRef 1) (ConstantInt (APInt 32 3))),
       (3, OtherInst 0 [InstRef 2])]] 0
   = Inl InvalidReference"
  by (rule conjI; code_simp)

subsection \<open>Idempotence\<close>

text \<open>
  C5, as the claim states it, fails. The block is
  \<open>%1 = add i32 %x, 5; %2 = add i32 %1, 0; %3 = sub i32 %2, 5; ret i32 %3\<close>. When the first
  run visits \<open>%1\<close> its only consumer is the Add \<open>%2\<close>; the identity rule on \<open>%2\<close> then makes
  \<open>%3\<close> a consumer of \<open>%1\<close>, behind the scan. The second run cancels \<open>%1\<close> against \<open>%3\<close>: it
  rewrites the ret and erases \<open>%3\<close>. A third run changes nothing. All three runs return
  true.
\<close>

theorem second_run_rewrites:
  "runOnBasicBlock
     [[(1, BinaryOperator Add (Argument 0) (ConstantInt (APInt 32 5))),
       (2, BinaryOperator Add (InstRef 1) (ConstantInt (APInt 32 0))),
       (3, BinaryOperator Sub (InstRef 2) (ConstantInt (APInt 32 5))),
       (4, OtherInst 0 [InstRef 3])]] 0
   = Inr (True,
       [[(1, BinaryOperator Add (Argument 0) (ConstantInt (APInt 32 5))),
         (3, BinaryOperator Sub (InstRef 1) (ConstantInt (APInt 32 5))),
         (4, OtherInst 0 [InstRef 3])]])
   \<and>
   runOnBasicBlock
     [[(1, BinaryOperator Add (Argument 0) (ConstantInt (APInt 32 5))),
       (3, BinaryOperator Sub (InstRef 1) (ConstantInt (APInt 32 5))),
       (4, OtherInst 0 [InstRef 3])]] 0
   = Inr (True,
       [[(1, BinaryOperator Add (Argument 0) (ConstantInt (APInt 32 5))),
         (4, OtherInst 0 [Argument 0])]])
   \<and>
   runOnBasicBlock
     [[(1, BinaryOperator Add (Argument 0) (ConstantInt (APInt 32 5))),
       (4, OtherInst 0 [Argument 0])]] 0
   = Inr (True,
       [[(1, BinaryOperator Add (Argument 0) (ConstantInt (APInt 32 5))),
         (4, OtherInst 0 [Argument 0])]])"
  by (intro conjI; code_simp)

text \<open>
  C5, amended. On a block whose scan lists nothing (no rule matches any instruction) a
  run leaves the function as it is: nothing is rewritten, inserted or erased. The run
  returns true all the same.
\<close>

theorem reduced_block_unchanged:
  "scanBlock f b 0 [] = Inr (f1, []) \<Longrightarrow> f1 = f \<and> runOnBasicBlock f b = Inr (True, f)"
  using scanBlock_grows [of f b 0 "[]" f1 "[]"] by (auto simp: runOnBasicBlock_def)

theorem reduced_block_unchanged_witness:
  "runOnBasicBlock
     [[(1, BinaryOperator Add (Argument 0) (ConstantInt (APInt 32 5))),
       (4, OtherInst 0 [Argument 0])]] 0
   = Inr (True,
       [[(1, BinaryOperator Add (Argument 0) (ConstantInt (APInt 32 5))),
         (4, OtherInst 0 [Argument 0])]])"
proof -
  have scan: "scanBlock
       [[(1, BinaryOperator Add (Argument 0) (ConstantInt (APInt 32 5))),
         (4, OtherInst 0 [Argument 0])]] 0 0 []
     = Inr ([[(1, BinaryOperator Add (Argument 0) (ConstantInt (APInt 32 5))),
              (4, OtherInst 0 [Argument 0])]], [])"
    by code_simp
  from reduced_block_unchanged [OF scan] show ?thesis by simp
qed

subsection \<open>Driver\<close>

text \<open>
  C4. The module has two functions: the first is \<open>ret void\<close>, the second is
  \<open>%1 = add i32 %x, 0; ret i32 %1\<close>. \<open>runOnBasicBlock\<close> returns true on the block of the
  first function, so \<open>LocalOpts::run\<close> returns from inside its loop and the second
  function is never visited: it comes back as it was, although a run on it rewrites it.
\<close>

theorem run_skips_later_functions:
  "LocalOpts_run
     [[[(1, OtherInst 0 [])]],
      [[(1, BinaryOperator Add (Argument 0) (ConstantInt (APInt 32 0))),
        (2, OtherInst 0 [InstRef 1])]]]
   = Inr (PA_none,
       [[[(1, OtherInst 0 [])]],
        [[(1, BinaryOperator Add (Argument 0) (ConstantInt (APInt 32 0))),
          (2, OtherInst 0 [InstRef 1])]]])
   \<and>
   runOnFunction
     [[(1, BinaryOperator Add (Argument 0) (ConstantInt (APInt 32 0))),
       (2, OtherInst 0 [InstRef 1])]]
   = Inr (True, [[(2, OtherInst 0 [Argument 0])]])"
  by (rule conjI; code_simp)

end
